theory Spec2Isabelle
  imports Main "HOL-Library.Word" "HOL-Library.AList"
begin

section \<open>JavaScript strings\<close>

text \<open>
  A JavaScript string is a sequence of 16-bit code units. String literals of the source are
  written with \<open>js\<close>, which maps each (ASCII) character to its code unit.
\<close>

type_synonym jschar = "16 word"
type_synonym jsstring = "jschar list"

definition js :: "string \<Rightarrow> jsstring" where
  "js s = map of_char s"

text \<open>
  \<open>String.prototype.trim\<close> removes WhiteSpace and LineTerminator code points from both
  ends: TAB, LF, VT, FF, CR, SP, NBSP, the Unicode space separators (U+1680, U+2000 to U+200A,
  U+202F, U+205F, U+3000), LS, PS and the byte order mark U+FEFF.
\<close>

definition is_js_whitespace :: "jschar \<Rightarrow> bool" where
  "is_js_whitespace c \<longleftrightarrow>
     c = 0x09 \<or> c = 0x0A \<or> c = 0x0B \<or> c = 0x0C \<or> c = 0x0D \<or> c = 0x20 \<or> c = 0xA0
     \<or> c = 0x1680 \<or> (0x2000 \<le> c \<and> c \<le> 0x200A) \<or> c = 0x2028 \<or> c = 0x2029
     \<or> c = 0x202F \<or> c = 0x205F \<or> c = 0x3000 \<or> c = 0xFEFF"

definition trim :: "jsstring \<Rightarrow> jsstring" where
  "trim s = rev (dropWhile is_js_whitespace (rev (dropWhile is_js_whitespace s)))"

text \<open>A text is blank when it is empty or consists of whitespace only.\<close>

definition blank :: "jsstring \<Rightarrow> bool" where
  "blank s \<longleftrightarrow> list_all is_js_whitespace s"

text \<open>
  \<open>Date.now().toString()\<close>: \<open>Date.now()\<close> is an integral number of milliseconds (of
  magnitude at most 8.64e15, so \<open>Number.prototype.toString\<close> never switches to exponent
  notation) and its string is the decimal numeral, with a minus sign before 1970.
\<close>

definition digit_char :: "nat \<Rightarrow> jschar" where
  "digit_char d = 0x30 + of_nat d"

fun decimal :: "nat \<Rightarrow> jsstring" where
  "decimal n = (if n < 10 then [digit_char n] else decimal (n div 10) @ [digit_char (n mod 10)])"

declare decimal.simps [simp del]

definition Number_toString :: "int \<Rightarrow> jsstring" where
  "Number_toString i = (if i < 0 then 0x2D # decimal (nat (- i)) else decimal (nat i))"

section \<open>The task store of \<open>Home.tsx\<close>\<close>

text \<open>
  \<open>interface Task { id: string; text: string; completed: boolean }\<close>. The fields \<open>id\<close>
  and \<open>text\<close> are called \<open>task_id\<close> and \<open>task_text\<close> here.
\<close>

record task =
  task_id :: jsstring
  task_text :: jsstring
  completed :: bool

text \<open>The two state variables of the component, \<open>tasks\<close> and \<open>inputText\<close>.\<close>

record home =
  tasks :: "task list"
  inputText :: jsstring

definition initial_home :: home where
  "initial_home = \<lparr>tasks = [], inputText = []\<rparr>"

text \<open>What a handler shows or logs: \<open>Alert.alert(title, message)\<close> and
  \<open>console.error(message, error)\<close>.\<close>

datatype js_error = SyntaxError | TypeError | StorageError jsstring

datatype effect = Alert jsstring jsstring | ConsoleError jsstring js_error

text \<open>
  \<open>addTask\<close> reads the clock once; \<open>now\<close> is the value of \<open>Date.now()\<close>. On blank
  input it raises the alert and returns before any state is set.
\<close>

definition addTask :: "int \<Rightarrow> home \<Rightarrow> home \<times> effect list" where
  "addTask now st =
     (if trim (inputText st) = [] then
        (st, [Alert (js ''Empty Task'') (js ''Please enter a task description'')])
      else
        let newTask = \<lparr>task_id = Number_toString now, task_text = trim (inputText st),
                         completed = False\<rparr>
        in (st\<lparr>tasks := tasks st @ [newTask], inputText := []\<rparr>, []))"

definition toggle :: "jsstring \<Rightarrow> task \<Rightarrow> task" where
  "toggle i t = (if task_id t = i then t\<lparr>completed := \<not> completed t\<rparr> else t)"

definition toggleTask :: "jsstring \<Rightarrow> home \<Rightarrow> home" where
  "toggleTask i st = st\<lparr>tasks := map (toggle i) (tasks st)\<rparr>"

definition deleteTask :: "jsstring \<Rightarrow> home \<Rightarrow> home" where
  "deleteTask i st = st\<lparr>tasks := filter (\<lambda>t. task_id t \<noteq> i) (tasks st)\<rparr>"

definition completedCount :: "home \<Rightarrow> nat" where
  "completedCount st = length (filter completed (tasks st))"

definition totalCount :: "home \<Rightarrow> nat" where
  "totalCount st = length (tasks st)"

definition summary :: "home \<Rightarrow> nat \<times> nat" where
  "summary st = (completedCount st, totalCount st)"

section \<open>JSON\<close>

text \<open>
  The value that \<open>JSON.parse\<close> builds. A number is kept as its lexeme (its value as a
  double is not needed here). An object lists its members in the order of their creation; a
  repeated key overwrites the earlier value in place, as \<open>CreateDataProperty\<close> does.
\<close>

datatype json = JNull | JBool bool | JNum jsstring | JStr jsstring
  | JArr "json list" | JObj "(jsstring \<times> json) list"

text \<open>
  \<open>JSON.parse\<close> follows the JSON grammar of ECMA-404: whitespace is SP, TAB, LF and CR; a
  string may hold any code unit from U+0020 on except the quote and the backslash, and the
  escapes of the quote, the backslash, the solidus, of b, f, n, r, t, and of u with four
  hexadecimal digits. The parser is a recursive descent with fuel: every call that descends
  takes one unit, and \<open>Bad\<close> is the \<open>SyntaxError\<close> that \<open>JSON.parse\<close> throws.
\<close>

datatype 'a parse_result = Ok 'a | Bad | OutOfFuel

definition is_json_ws :: "jschar \<Rightarrow> bool" where
  "is_json_ws c \<longleftrightarrow> c = 0x20 \<or> c = 0x09 \<or> c = 0x0A \<or> c = 0x0D"

definition skip_ws :: "jsstring \<Rightarrow> jsstring" where
  "skip_ws s = dropWhile is_json_ws s"

definition hex_value :: "jschar \<Rightarrow> nat option" where
  "hex_value c =
     (let n = unat c
      in if 0x30 \<le> n \<and> n \<le> 0x39 then Some (n - 0x30)
         else if 0x41 \<le> n \<and> n \<le> 0x46 then Some (n - 0x37)
         else if 0x61 \<le> n \<and> n \<le> 0x66 then Some (n - 0x57)
         else None)"

definition hex4 :: "jschar \<Rightarrow> jschar \<Rightarrow> jschar \<Rightarrow> jschar \<Rightarrow> jschar option" where
  "hex4 a b c d =
     (case (hex_value a, hex_value b, hex_value c, hex_value d) of
        (Some x, Some y, Some z, Some w) \<Rightarrow> Some (of_nat (((x * 16 + y) * 16 + z) * 16 + w))
      | _ \<Rightarrow> None)"

definition unescape :: "jschar \<Rightarrow> jschar option" where
  "unescape e =
     (if e = 0x22 then Some 0x22 else if e = 0x5C then Some 0x5C
      else if e = 0x2F then Some 0x2F else if e = 0x62 then Some 0x08
      else if e = 0x66 then Some 0x0C else if e = 0x6E then Some 0x0A
      else if e = 0x72 then Some 0x0D else if e = 0x74 then Some 0x09
      else None)"

definition consume :: "jschar \<Rightarrow> (jsstring \<times> jsstring) option \<Rightarrow> (jsstring \<times> jsstring) option" where
  "consume u r = (case r of None \<Rightarrow> None | Some (str, rest) \<Rightarrow> Some (u # str, rest))"

fun parse_chars :: "jsstring \<Rightarrow> (jsstring \<times> jsstring) option" where
  "parse_chars [] = None"
| "parse_chars (c # cs) =
     (if c = 0x22 then Some ([], cs)
      else if c = 0x5C then
        (case cs of
           [] \<Rightarrow> None
         | e # r \<Rightarrow>
             if e = 0x75 then
               (case r of
                  h1 # h2 # h3 # h4 # r' \<Rightarrow>
                    (case hex4 h1 h2 h3 h4 of
                       None \<Rightarrow> None
                     | Some u \<Rightarrow> consume u (parse_chars r'))
                | _ \<Rightarrow> None)
             else
               (case unescape e of
                  None \<Rightarrow> None
                | Some u \<Rightarrow> consume u (parse_chars r)))
      else if c < 0x20 then None
      else consume c (parse_chars cs))"

declare parse_chars.simps(2) [simp del]

text \<open>A number: an optional minus, \<open>0\<close> or a numeral without leading zero, an optional
  fraction and an optional exponent. The lexeme is returned with the rest of the input.\<close>

definition is_digit :: "jschar \<Rightarrow> bool" where
  "is_digit c \<longleftrightarrow> 0x30 \<le> c \<and> c \<le> 0x39"

definition parse_frac :: "jsstring \<Rightarrow> (jsstring \<times> jsstring) option" where
  "parse_frac s =
     (case s of
        [] \<Rightarrow> Some ([], s)
      | c # r \<Rightarrow>
          if c = 0x2E then
            (if takeWhile is_digit r = [] then None
             else Some (c # takeWhile is_digit r, dropWhile is_digit r))
          else Some ([], s))"

definition parse_exp :: "jsstring \<Rightarrow> (jsstring \<times> jsstring) option" where
  "parse_exp s =
     (case s of
        [] \<Rightarrow> Some ([], s)
      | c # r \<Rightarrow>
          if c = 0x65 \<or> c = 0x45 then
            (let (sg, r1) = (case r of
                               [] \<Rightarrow> ([], r)
                             | x # r' \<Rightarrow> if x = 0x2B \<or> x = 0x2D then ([x], r') else ([], r))
             in if takeWhile is_digit r1 = [] then None
                else Some (c # sg @ takeWhile is_digit r1, dropWhile is_digit r1))
          else Some ([], s))"

definition parse_number :: "jsstring \<Rightarrow> (jsstring \<times> jsstring) option" where
  "parse_number s =
     (let (sg, s1) = (case s of
                        [] \<Rightarrow> ([], s)
                      | c # r \<Rightarrow> if c = 0x2D then ([c], r) else ([], s))
      in case s1 of
           [] \<Rightarrow> None
         | d # r \<Rightarrow>
             if \<not> is_digit d then None
             else
               let (ip, s2) = (if d = 0x30 then ([d], r)
                               else (takeWhile is_digit s1, dropWhile is_digit s1))
               in case parse_frac s2 of
                    None \<Rightarrow> None
                  | Some (fp, s3) \<Rightarrow>
                      (case parse_exp s3 of
                         None \<Rightarrow> None
                       | Some (ep, s4) \<Rightarrow> Some (sg @ ip @ fp @ ep, s4)))"

definition strip_prefix :: "jsstring \<Rightarrow> jsstring \<Rightarrow> jsstring option" where
  "strip_prefix p s = (if take (length p) s = p then Some (drop (length p) s) else None)"

definition parse_atom :: "jsstring \<Rightarrow> (json \<times> jsstring) parse_result" where
  "parse_atom s =
     (case strip_prefix (js ''true'') s of
        Some r \<Rightarrow> Ok (JBool True, r)
      | None \<Rightarrow>
     (case strip_prefix (js ''false'') s of
        Some r \<Rightarrow> Ok (JBool False, r)
      | None \<Rightarrow>
     (case strip_prefix (js ''null'') s of
        Some r \<Rightarrow> Ok (JNull, r)
      | None \<Rightarrow>
     (case parse_number s of
        Some (lexeme, r) \<Rightarrow> Ok (JNum lexeme, r)
      | None \<Rightarrow> Bad))))"

text \<open>
  \<open>parse_value\<close> expects the first character of a value and returns the value with the
  input after it; \<open>parse_elements\<close> and \<open>parse_members\<close> read the rest of an array and
  of an object, with the elements and members read so far.
\<close>

fun parse_value :: "nat \<Rightarrow> jsstring \<Rightarrow> (json \<times> jsstring) parse_result"
  and parse_elements :: "nat \<Rightarrow> jsstring \<Rightarrow> json list \<Rightarrow> (json \<times> jsstring) parse_result"
  and parse_members ::
    "nat \<Rightarrow> jsstring \<Rightarrow> (jsstring \<times> json) list \<Rightarrow> (json \<times> jsstring) parse_result"
where
  "parse_value 0 s = OutOfFuel"
| "parse_value (Suc n) [] = Bad"
| "parse_value (Suc n) (c # cs) =
     (if c = 0x5B then
        (case skip_ws cs of
           [] \<Rightarrow> Bad
         | d # r \<Rightarrow> if d = 0x5D then Ok (JArr [], r) else parse_elements n (d # r) [])
      else if c = 0x7B then
        (case skip_ws cs of
           [] \<Rightarrow> Bad
         | d # r \<Rightarrow> if d = 0x7D then Ok (JObj [], r) else parse_members n (d # r) [])
      else if c = 0x22 then
        (case parse_chars cs of
           None \<Rightarrow> Bad
         | Some (str, r) \<Rightarrow> Ok (JStr str, r))
      else parse_atom (c # cs))"
| "parse_elements 0 s acc = OutOfFuel"
| "parse_elements (Suc n) s acc =
     (case parse_value n s of
        Ok (v, r) \<Rightarrow>
          (case skip_ws r of
             [] \<Rightarrow> Bad
           | d # r' \<Rightarrow>
               if d = 0x2C then parse_elements n (skip_ws r') (acc @ [v])
               else if d = 0x5D then Ok (JArr (acc @ [v]), r')
               else Bad)
      | Bad \<Rightarrow> Bad
      | OutOfFuel \<Rightarrow> OutOfFuel)"
| "parse_members 0 s acc = OutOfFuel"
| "parse_members (Suc n) [] acc = Bad"
| "parse_members (Suc n) (q # cs) acc =
     (if q \<noteq> 0x22 then Bad
      else
        (case parse_chars cs of
           None \<Rightarrow> Bad
         | Some (k, r) \<Rightarrow>
             (case skip_ws r of
                [] \<Rightarrow> Bad
              | colon # r1 \<Rightarrow>
                  if colon \<noteq> 0x3A then Bad
                  else
                    (case parse_value n (skip_ws r1) of
                       Ok (v, r2) \<Rightarrow>
                         (case skip_ws r2 of
                            [] \<Rightarrow> Bad
                          | d # r3 \<Rightarrow>
                              if d = 0x2C then
                                parse_members n (skip_ws r3) (AList.update k v acc)
                              else if d = 0x7D then Ok (JObj (AList.update k v acc), r3)
                              else Bad)
                     | Bad \<Rightarrow> Bad
                     | OutOfFuel \<Rightarrow> OutOfFuel))))"

text \<open>
  A JSON text is one value between optional whitespace. Twice the length of the text, and one,
  is fuel enough for any text (\<open>JSON_parse_fuel\<close> below).
\<close>

definition JSON_parse :: "jsstring \<Rightarrow> js_error + json" where
  "JSON_parse s =
     (case parse_value (Suc (2 * length s)) (skip_ws s) of
        Ok (v, r) \<Rightarrow> if skip_ws r = [] then Inr v else Inl SyntaxError
      | Bad \<Rightarrow> Inl SyntaxError
      | OutOfFuel \<Rightarrow> Inl SyntaxError)"


text \<open>
  \<open>JSON.stringify\<close> of a string is \<open>QuoteJSONString\<close> (ECMA-262, 25.5.2.3): the seven
  characters with a short escape, then u escapes with lower-case digits for the
  other control characters and for surrogates that are not paired, and every other code point as
  it is.
\<close>

definition hex_digit :: "nat \<Rightarrow> jschar" where
  "hex_digit d = of_nat (if d < 10 then 0x30 + d else 0x57 + d)"

definition unicode_escape :: "jschar \<Rightarrow> jsstring" where
  "unicode_escape c =
     [0x5C, 0x75, hex_digit (unat c div 4096 mod 16), hex_digit (unat c div 256 mod 16),
      hex_digit (unat c div 16 mod 16), hex_digit (unat c mod 16)]"

definition is_lead :: "jschar \<Rightarrow> bool" where
  "is_lead c \<longleftrightarrow> 0xD800 \<le> c \<and> c \<le> 0xDBFF"

definition is_trail :: "jschar \<Rightarrow> bool" where
  "is_trail c \<longleftrightarrow> 0xDC00 \<le> c \<and> c \<le> 0xDFFF"

definition quote_unit :: "jschar \<Rightarrow> jsstring" where
  "quote_unit c =
     (if c = 0x08 then [0x5C, 0x62] else if c = 0x09 then [0x5C, 0x74]
      else if c = 0x0A then [0x5C, 0x6E] else if c = 0x0C then [0x5C, 0x66]
      else if c = 0x0D then [0x5C, 0x72] else if c = 0x22 then [0x5C, 0x22]
      else if c = 0x5C then [0x5C, 0x5C]
      else if c < 0x20 \<or> is_lead c \<or> is_trail c then unicode_escape c
      else [c])"

fun quote_chars :: "jsstring \<Rightarrow> jsstring" where
  "quote_chars [] = []"
| "quote_chars [c] = quote_unit c"
| "quote_chars (c # d # cs) =
     (if is_lead c \<and> is_trail d then c # d # quote_chars cs
      else quote_unit c @ quote_chars (d # cs))"

definition QuoteJSONString :: "jsstring \<Rightarrow> jsstring" where
  "QuoteJSONString s = 0x22 # quote_chars s @ [0x22]"

text \<open>
  \<open>JSON.stringify(tasks)\<close> at the type \<open>Task[]\<close>, with no indentation: the array in
  brackets, its elements separated by commas, each task an object with its three properties in
  the order of their creation (\<open>id\<close>, \<open>text\<close>, \<open>completed\<close>).
\<close>

definition stringify_task :: "task \<Rightarrow> jsstring" where
  "stringify_task t =
     0x7B # QuoteJSONString (js ''id'') @ 0x3A # QuoteJSONString (task_id t)
     @ 0x2C # QuoteJSONString (js ''text'') @ 0x3A # QuoteJSONString (task_text t)
     @ 0x2C # QuoteJSONString (js ''completed'') @ 0x3A
     # (if completed t then js ''true'' else js ''false'') @ [0x7D]"

fun join_comma :: "jsstring list \<Rightarrow> jsstring" where
  "join_comma [] = []"
| "join_comma [x] = x"
| "join_comma (x # y # ys) = x @ 0x2C # join_comma (y # ys)"

definition JSON_stringify :: "task list \<Rightarrow> jsstring" where
  "JSON_stringify ts = 0x5B # join_comma (map stringify_task ts) @ [0x5D]"

text \<open>The JavaScript value of a task and of a task list, in the shape of \<open>json\<close>.\<close>

definition json_of_task :: "task \<Rightarrow> json" where
  "json_of_task t =
     JObj [(js ''id'', JStr (task_id t)), (js ''text'', JStr (task_text t)),
           (js ''completed'', JBool (completed t))]"

definition json_of_tasks :: "task list \<Rightarrow> json" where
  "json_of_tasks ts = JArr (map json_of_task ts)"

text \<open>
  The handlers are typed at \<open>Task[]\<close> and read the properties \<open>id\<close>, \<open>text\<close> and
  \<open>completed\<close> of a task by name. A JavaScript value is read as a task when it is an object
  with a string \<open>id\<close>, a string \<open>text\<close> and a boolean \<open>completed\<close>; its properties may
  come in any order and it may have further ones, which the handlers carry along and never read.
  A value is read as a task list when it is an array of such objects. The state \<open>tasks\<close> of
  the model holds these three fields of every task.
\<close>

definition json_property :: "json \<Rightarrow> jsstring \<Rightarrow> json option" where
  "json_property v k = (case v of JObj ms \<Rightarrow> map_of ms k | _ \<Rightarrow> None)"

fun string_of :: "json option \<Rightarrow> jsstring option" where
  "string_of (Some (JStr s)) = Some s"
| "string_of _ = None"

fun boolean_of :: "json option \<Rightarrow> bool option" where
  "boolean_of (Some (JBool b)) = Some b"
| "boolean_of _ = None"

definition task_of_json :: "json \<Rightarrow> task option" where
  "task_of_json v =
     (case string_of (json_property v (js ''id'')) of
        None \<Rightarrow> None
      | Some i \<Rightarrow>
          (case string_of (json_property v (js ''text'')) of
             None \<Rightarrow> None
           | Some x \<Rightarrow>
               (case boolean_of (json_property v (js ''completed'')) of
                  None \<Rightarrow> None
                | Some c \<Rightarrow> Some \<lparr>task_id = i, task_text = x, completed = c\<rparr>)))"

definition tasks_of_json :: "json \<Rightarrow> task list option" where
  "tasks_of_json v = (case v of JArr vs \<Rightarrow> those (map task_of_json vs) | _ \<Rightarrow> None)"

text \<open>
  Every render computes \<open>tasks.filter((task) => task.completed).length\<close> from whatever
  value \<open>tasks\<close> holds. The call finds the array method only on an array, and then runs over
  its elements. Reading a property of \<open>null\<close> throws a \<open>TypeError\<close>, and no other value
  that \<open>JSON.parse\<close> returns has a \<open>filter\<close> that can be called, so on these the call
  throws a \<open>TypeError\<close> as well.
\<close>

definition filter_receiver :: "json \<Rightarrow> js_error + json list" where
  "filter_receiver v = (case v of JArr vs \<Rightarrow> Inr vs | _ \<Rightarrow> Inl TypeError)"

section \<open>Persistence\<close>

text \<open>
  \<open>await AsyncStorage.getItem(STORAGE_KEY)\<close> resolves with the stored string or with
  \<open>null\<close>, or rejects; \<open>await AsyncStorage.setItem(STORAGE_KEY, value)\<close> resolves or
  rejects. What the storage does is the environment's choice and an argument of the model.
\<close>

datatype getItem_result = Resolved "jsstring option" | Rejected js_error

datatype setItem_result = Stored | WriteRejected js_error

text \<open>
  \<open>loadTasks\<close>: the first argument is what \<open>getItem\<close> gives, the second the value of the
  state variable \<open>tasks\<close> before the call. The result is its value after the call, which is
  whatever \<open>JSON.parse\<close> returned when \<open>setTasks\<close> is reached, and what the \<open>catch\<close>
  block logged for an error of \<open>getItem\<close> or of \<open>JSON.parse\<close>.
\<close>

definition loadTasks :: "getItem_result \<Rightarrow> json \<Rightarrow> json \<times> effect list" where
  "loadTasks got cur =
     (case got of
        Rejected e \<Rightarrow> (cur, [ConsoleError (js ''Error loading tasks:'') e])
      | Resolved None \<Rightarrow> (cur, [])
      | Resolved (Some storedTasks) \<Rightarrow>
          (case JSON_parse storedTasks of
             Inl e \<Rightarrow> (cur, [ConsoleError (js ''Error loading tasks:'') e])
           | Inr v \<Rightarrow> (v, [])))"

text \<open>
  \<open>saveTasks\<close>: the value under the storage key before and after the call, and what was
  logged. A rejected write is taken to leave the stored value as it was.
\<close>

definition saveTasks ::
  "setItem_result \<Rightarrow> home \<Rightarrow> jsstring option \<Rightarrow> jsstring option \<times> effect list" where
  "saveTasks res st storage =
     (case res of
        Stored \<Rightarrow> (Some (JSON_stringify (tasks st)), [])
      | WriteRejected e \<Rightarrow> (storage, [ConsoleError (js ''Error saving tasks:'') e]))"


section \<open>Sequences of operations\<close>

text \<open>
  What can happen to the component: the user edits the input field, adds, toggles or deletes a
  task, and \<open>loadTasks\<close> runs with some result of \<open>getItem\<close>. The events are handled one
  after the other, each on the state that the one before it left. A step gives \<open>None\<close> when
  a load leaves a value in \<open>tasks\<close> that is not read as a task list. The effect that calls
  \<open>saveTasks\<close> after every change of \<open>tasks\<close> writes to the storage only and is not a step.
\<close>

datatype op = SetInputText jsstring | AddTask int | ToggleTask jsstring | DeleteTask jsstring
  | LoadTasks getItem_result

fun step :: "op \<Rightarrow> home \<Rightarrow> home option" where
  "step (SetInputText s) st = Some (st\<lparr>inputText := s\<rparr>)"
| "step (AddTask now) st = Some (fst (addTask now st))"
| "step (ToggleTask i) st = Some (toggleTask i st)"
| "step (DeleteTask i) st = Some (deleteTask i st)"
| "step (LoadTasks got) st =
     (case tasks_of_json (fst (loadTasks got (json_of_tasks (tasks st)))) of
        None \<Rightarrow> None
      | Some ts \<Rightarrow> Some (st\<lparr>tasks := ts\<rparr>))"

fun run :: "op list \<Rightarrow> home \<Rightarrow> home option" where
  "run [] st = Some st"
| "run (x # xs) st = (case step x st of None \<Rightarrow> None | Some st' \<Rightarrow> run xs st')"

text \<open>The invariants of the data model, as predicates on the store.\<close>

definition unique_ids :: "home \<Rightarrow> bool" where
  "unique_ids st \<longleftrightarrow> distinct (map task_id (tasks st))"

definition texts_not_blank :: "task list \<Rightarrow> bool" where
  "texts_not_blank ts \<longleftrightarrow> list_all (\<lambda>t. \<not> blank (task_text t)) ts"

text \<open>
  A load reads a snapshot of tasks with texts that are not blank: the read is rejected, no value
  is stored, the stored string is not a JSON text, or it is the text of a task list none of
  whose tasks has a blank text. Every other operation passes.
\<close>

definition reads_texts_not_blank :: "op \<Rightarrow> bool" where
  "reads_texts_not_blank x =
     (case x of
        LoadTasks (Resolved (Some s)) \<Rightarrow>
          (case JSON_parse s of
             Inl e \<Rightarrow> True
           | Inr v \<Rightarrow> (case tasks_of_json v of None \<Rightarrow> False | Some ts \<Rightarrow> texts_not_blank ts))
      | _ \<Rightarrow> True)"

section \<open>Trimming\<close>



section \<open>Parsing what \<open>JSON.stringify\<close> writes\<close>

lemma hex_value_hex_digit: "d < 16 \<Longrightarrow> hex_value (hex_digit d) = Some d"
proof -
  assume d: "d < 16"
  have "unat (hex_digit d) = (if d < 10 then 0x30 + d else 0x57 + d)"
    using d by (simp add: hex_digit_def unat_of_nat)
  then show ?thesis using d by (simp add: hex_value_def Let_def)
qed

lemma nibbles:
  assumes "(n::nat) < 65536"
  shows "((n div 4096 mod 16 * 16 + n div 256 mod 16) * 16 + n div 16 mod 16) * 16 + n mod 16 = n"
proof -
  have q3: "n div 4096 = n div 256 div 16" and q2: "n div 256 = n div 16 div 16"
    by (simp_all add: div_mult2_eq [symmetric])
  have "n div 4096 < 16" using assms by simp
  then have "n div 4096 mod 16 * 16 + n div 256 mod 16 = n div 256"
    by (simp add: q3)
  moreover have "n div 256 * 16 + n div 16 mod 16 = n div 16"
    by (simp add: q2)
  ultimately show ?thesis by simp
qed

lemma hex4_escape:
  "hex4 (hex_digit (unat c div 4096 mod 16)) (hex_digit (unat c div 256 mod 16))
        (hex_digit (unat c div 16 mod 16)) (hex_digit (unat c mod 16)) = Some c"
proof -
  have "unat c < 65536" using unsigned_less [of c] by simp
  then have "((unat c div 4096 mod 16 * 16 + unat c div 256 mod 16) * 16 + unat c div 16 mod 16) * 16
    + unat c mod 16 = unat c" by (rule nibbles)
  then have "(of_nat (((unat c div 4096 mod 16 * 16 + unat c div 256 mod 16) * 16
    + unat c div 16 mod 16) * 16 + unat c mod 16) :: jschar) = of_nat (unat c)" by (rule arg_cong)
  then have "(of_nat (((unat c div 4096 mod 16 * 16 + unat c div 256 mod 16) * 16
    + unat c div 16 mod 16) * 16 + unat c mod 16) :: jschar) = c" by (simp only: of_nat_unat ucast_id)
  then show ?thesis
    unfolding hex4_def by (simp only: hex_value_hex_digit mod_less_divisor zero_less_numeral prod.case option.case)
qed

lemma parse_chars_close: "parse_chars (0x22 # cs) = Some ([], cs)"
  by (simp add: parse_chars.simps(2))

lemma parse_chars_plain:
  "c \<noteq> 0x22 \<Longrightarrow> c \<noteq> 0x5C \<Longrightarrow> \<not> c < 0x20 \<Longrightarrow> parse_chars (c # cs) = consume c (parse_chars cs)"
  by (simp add: parse_chars.simps(2))

lemma parse_chars_escape:
  "unescape e = Some u \<Longrightarrow> e \<noteq> 0x75 \<Longrightarrow> parse_chars (0x5C # e # r) = consume u (parse_chars r)"
  by (simp add: parse_chars.simps(2))

lemma parse_chars_unicode_escape:
  "parse_chars (unicode_escape c @ xs) = consume c (parse_chars xs)"
  by (simp add: unicode_escape_def hex4_escape parse_chars.simps(2))

lemma surrogate_plain:
  "is_lead c \<or> is_trail c \<Longrightarrow> c \<noteq> 0x22 \<and> c \<noteq> 0x5C \<and> \<not> c < 0x20"
  by (auto simp: is_lead_def is_trail_def word_le_nat_alt word_less_nat_alt)

lemma parse_chars_quote_unit:
  "parse_chars (quote_unit c @ xs) = consume c (parse_chars xs)"
proof -
  consider "c = 0x08" | "c = 0x09" | "c = 0x0A" | "c = 0x0C" | "c = 0x0D" | "c = 0x22" | "c = 0x5C"
    | "c \<noteq> 0x08" "c \<noteq> 0x09" "c \<noteq> 0x0A" "c \<noteq> 0x0C" "c \<noteq> 0x0D" "c \<noteq> 0x22" "c \<noteq> 0x5C"
      "c < 0x20 \<or> is_lead c \<or> is_trail c"
    | "c \<noteq> 0x08" "c \<noteq> 0x09" "c \<noteq> 0x0A" "c \<noteq> 0x0C" "c \<noteq> 0x0D" "c \<noteq> 0x22" "c \<noteq> 0x5C"
      "\<not> (c < 0x20 \<or> is_lead c \<or> is_trail c)"
    by blast
  then show ?thesis
  proof cases
    case 8
    then show ?thesis by (simp add: quote_unit_def parse_chars_unicode_escape)
  next
    case 9
    then show ?thesis by (simp add: quote_unit_def parse_chars_plain)
  qed (simp_all add: quote_unit_def parse_chars_escape unescape_def)
qed

lemma parse_chars_quote_chars:
  "parse_chars (quote_chars s @ 0x22 # rest) = Some (s, rest)"
proof (induction s rule: quote_chars.induct)
  case 1
  show ?case by (simp add: parse_chars_close)
next
  case (2 c)
  show ?case using parse_chars_quote_unit [of c "0x22 # rest"]
    by (simp add: consume_def parse_chars_close)
next
  case (3 c d cs)
  show ?case
  proof (cases "is_lead c \<and> is_trail d")
    case True
    then have "parse_chars (c # d # quote_chars cs @ 0x22 # rest)
      = consume c (consume d (parse_chars (quote_chars cs @ 0x22 # rest)))"
      using surrogate_plain [of c] surrogate_plain [of d] by (simp add: parse_chars_plain)
    then show ?thesis using True 3 by (simp add: consume_def)
  next
    case False
    then have "quote_chars (c # d # cs) = quote_unit c @ quote_chars (d # cs)"
      by (simp only: quote_chars.simps if_False)
    then show ?thesis using 3(2) [OF False] parse_chars_quote_unit [of c "quote_chars (d # cs) @ 0x22 # rest"]
      by (simp add: consume_def)
  qed
qed

lemma skip_ws_Cons: "\<not> is_json_ws c \<Longrightarrow> skip_ws (c # cs) = c # cs"
  by (simp add: skip_ws_def)

lemma parse_value_string:
  "parse_value (Suc n) (QuoteJSONString s @ rest) = Ok (JStr s, rest)"
  by (simp add: QuoteJSONString_def parse_chars_quote_chars)

lemma parse_value_bool:
  "parse_value (Suc n) ((if b then js ''true'' else js ''false'') @ rest) = Ok (JBool b, rest)"
  by (simp add: js_def parse_atom_def strip_prefix_def)

lemma key_names_distinct:
  "js ''id'' \<noteq> js ''text''" "js ''id'' \<noteq> js ''completed''" "js ''text'' \<noteq> js ''completed''"
  by (simp_all add: js_def)

lemma parse_members_string:
  "parse_members (Suc (Suc n)) (QuoteJSONString k @ 0x3A # QuoteJSONString s @ 0x2C # 0x22 # rest) acc
     = parse_members (Suc n) (0x22 # rest) (AList.update k (JStr s) acc)"
proof -
  have "parse_value (Suc n) (skip_ws (QuoteJSONString s @ 0x2C # 0x22 # rest))
      = Ok (JStr s, 0x2C # 0x22 # rest)"
    by (simp add: QuoteJSONString_def parse_chars_quote_chars skip_ws_Cons is_json_ws_def)
  then show ?thesis
    by (simp add: QuoteJSONString_def [of k] parse_chars_quote_chars skip_ws_Cons is_json_ws_def)
qed

lemma parse_members_bool_last:
  "parse_members (Suc (Suc n))
     (QuoteJSONString k @ 0x3A # (if b then js ''true'' else js ''false'') @ 0x7D # rest) acc
     = Ok (JObj (AList.update k (JBool b) acc), rest)"
proof -
  have "skip_ws ((if b then js ''true'' else js ''false'') @ 0x7D # rest)
      = (if b then js ''true'' else js ''false'') @ 0x7D # rest"
    by (simp add: js_def skip_ws_Cons is_json_ws_def)
  then have "parse_value (Suc n) (skip_ws ((if b then js ''true'' else js ''false'') @ 0x7D # rest))
      = Ok (JBool b, 0x7D # rest)"
    by (simp only: parse_value_bool)
  then show ?thesis
    by (simp add: QuoteJSONString_def [of k] parse_chars_quote_chars skip_ws_Cons is_json_ws_def)
qed

lemma parse_value_task:
  "parse_value (Suc (Suc (Suc (Suc (Suc n))))) (stringify_task t @ rest) = Ok (json_of_task t, rest)"
proof -
  let ?m3 = "QuoteJSONString (js ''completed'') @ 0x3A
     # (if completed t then js ''true'' else js ''false'') @ 0x7D # rest"
  let ?m2 = "QuoteJSONString (js ''text'') @ 0x3A # QuoteJSONString (task_text t) @ 0x2C # ?m3"
  let ?m1 = "QuoteJSONString (js ''id'') @ 0x3A # QuoteJSONString (task_id t) @ 0x2C # ?m2"
  have s: "stringify_task t @ rest = 0x7B # ?m1"
    by (simp add: stringify_task_def)
  have q: "\<And>k r. QuoteJSONString k @ r = 0x22 # quote_chars k @ 0x22 # r"
    by (simp add: QuoteJSONString_def)
  have "parse_value (Suc (Suc (Suc (Suc (Suc n))))) (0x7B # ?m1)
      = parse_members (Suc (Suc (Suc (Suc n)))) ?m1 []"
    by (simp add: q [of "js ''id''"] skip_ws_Cons is_json_ws_def)
  also have "\<dots> = parse_members (Suc (Suc (Suc n))) ?m2 [(js ''id'', JStr (task_id t))]"
    using parse_members_string [of "Suc (Suc n)" "js ''id''" "task_id t" _ "[]"]
    by (simp add: q [of "js ''text''"])
  also have "\<dots> = parse_members (Suc (Suc n)) ?m3
      [(js ''id'', JStr (task_id t)), (js ''text'', JStr (task_text t))]"
    using parse_members_string [of "Suc n" "js ''text''" "task_text t" _ "[(js ''id'', JStr (task_id t))]"]
    by (simp add: q [of "js ''completed''"] key_names_distinct)
  also have "\<dots> = Ok (json_of_task t, rest)"
    by (simp only: parse_members_bool_last) (simp add: json_of_task_def key_names_distinct)
  finally show ?thesis by (simp only: s)
qed

lemma stringify_task_head: "\<exists>r. stringify_task t = 0x7B # r"
  by (simp add: stringify_task_def)

lemma join_comma_head:
  "\<exists>r. join_comma (map stringify_task (t # ts)) = 0x7B # r"
  using stringify_task_head [of t] by (cases ts) auto

lemma skip_ws_join_comma:
  "skip_ws (join_comma (map stringify_task (t # ts)) @ r) = join_comma (map stringify_task (t # ts)) @ r"
proof -
  obtain r' where "join_comma (map stringify_task (t # ts)) = 0x7B # r'"
    using join_comma_head by blast
  then show ?thesis by (simp add: skip_ws_Cons is_json_ws_def)
qed

lemma parse_elements_tasks:
  "parse_elements (Suc (Suc (Suc (Suc (Suc (Suc (length ts + n)))))))
     (join_comma (map stringify_task (t # ts)) @ 0x5D # rest) acc
   = Ok (JArr (acc @ map json_of_task (t # ts)), rest)"
proof (induction ts arbitrary: t acc)
  case Nil
  show ?case
    by (simp add: parse_value_task skip_ws_Cons is_json_ws_def)
next
  case (Cons u us)
  have "join_comma (map stringify_task (t # u # us)) @ 0x5D # rest
      = stringify_task t @ 0x2C # join_comma (map stringify_task (u # us)) @ 0x5D # rest"
    by simp
  moreover have "parse_value (Suc (Suc (Suc (Suc (Suc (Suc (length us + n)))))))
      (stringify_task t @ 0x2C # join_comma (map stringify_task (u # us)) @ 0x5D # rest)
      = Ok (json_of_task t, 0x2C # join_comma (map stringify_task (u # us)) @ 0x5D # rest)"
    by (rule parse_value_task)
  ultimately show ?case
    using Cons.IH [of u "acc @ [json_of_task t]"] skip_ws_join_comma [of u us "0x5D # rest"]
    by (simp add: skip_ws_Cons is_json_ws_def del: join_comma.simps)
qed

lemma length_stringify_task: "2 \<le> length (stringify_task t)"
  by (simp add: stringify_task_def)

lemma length_join_comma: "2 * length ts \<le> length (join_comma (map stringify_task ts))"
proof (induction ts rule: induct_list012)
  case 1
  show ?case by simp
next
  case (2 t)
  show ?case using length_stringify_task [of t] by simp
next
  case (3 t u us)
  then show ?case using length_stringify_task [of t] by simp
qed

lemma parse_value_tasks:
  assumes "ts \<noteq> [] \<Longrightarrow> length ts + 6 \<le> n"
  shows "parse_value (Suc n) (JSON_stringify ts @ rest) = Ok (json_of_tasks ts, rest)"
proof (cases ts)
  case Nil
  then show ?thesis
    by (simp add: JSON_stringify_def json_of_tasks_def skip_ws_Cons is_json_ws_def)
next
  case (Cons t us)
  obtain r where r: "join_comma (map stringify_task (t # us)) = 0x7B # r"
    using join_comma_head by blast
  define m where "m = n - 6 - length us"
  have n: "n = Suc (Suc (Suc (Suc (Suc (Suc (length us + m))))))"
    using assms Cons by (simp add: m_def)
  have "parse_value (Suc n) (JSON_stringify ts @ rest)
      = parse_elements n (join_comma (map stringify_task (t # us)) @ 0x5D # rest) []"
    using r by (simp add: JSON_stringify_def Cons skip_ws_Cons is_json_ws_def del: join_comma.simps)
  also have "\<dots> = Ok (JArr (map json_of_task (t # us)), rest)"
    unfolding n using parse_elements_tasks [of us m t rest "[]"] by simp
  finally show ?thesis by (simp add: json_of_tasks_def Cons)
qed

lemma JSON_parse_stringify: "JSON_parse (JSON_stringify ts) = Inr (json_of_tasks ts)"
proof -
  have "2 * length ts + 2 \<le> length (JSON_stringify ts)"
    using length_join_comma [of ts] by (simp add: JSON_stringify_def)
  then have "ts \<noteq> [] \<Longrightarrow> length ts + 6 \<le> 2 * length (JSON_stringify ts)"
    by (cases ts) simp_all
  then have "parse_value (Suc (2 * length (JSON_stringify ts))) (JSON_stringify ts @ [])
      = Ok (json_of_tasks ts, [])"
    by (rule parse_value_tasks)
  moreover have "skip_ws (JSON_stringify ts) = JSON_stringify ts"
    by (simp add: JSON_stringify_def skip_ws_Cons is_json_ws_def)
  ultimately show ?thesis
    by (simp add: JSON_parse_def skip_ws_def)
qed

lemma length_skip_ws: "length (skip_ws s) \<le> length s"
  by (simp add: skip_ws_def length_dropWhile_le)

lemma skip_ws_shorter: "skip_ws s = d # r \<Longrightarrow> length r < length s"
  using length_skip_ws [of s] by simp

lemma consume_Some: "consume u x = Some (str, r) \<Longrightarrow> \<exists>str'. x = Some (str', r)"
  by (cases x) (auto simp: consume_def)

lemma parse_chars_shorter: "parse_chars s = Some (str, r) \<Longrightarrow> length r < length s"
proof (induction s arbitrary: str rule: parse_chars.induct)
  case 1
  then show ?case by simp
next
  case (2 c cs)
  show ?case
  proof (cases "c = 0x22")
    case True
    then show ?thesis using "2.prems" by (simp add: parse_chars.simps(2))
  next
    case q: False
    show ?thesis
    proof (cases "c = 0x5C")
      case False
      then have "\<not> c < 0x20" and "consume c (parse_chars cs) = Some (str, r)"
        using q "2.prems" by (auto simp: parse_chars.simps(2) split: if_splits)
      then obtain str' where "parse_chars cs = Some (str', r)" using consume_Some by blast
      then show ?thesis using "2.IH"(3) [OF q False] \<open>\<not> c < 0x20\<close> by fastforce
    next
      case b: True
      then obtain e r0 where cs: "cs = e # r0"
        using q "2.prems" by (cases cs) (auto simp: parse_chars.simps(2))
      show ?thesis
      proof (cases "e = 0x75")
        case True
        then obtain h1 h2 h3 h4 r1 u where r0: "r0 = h1 # h2 # h3 # h4 # r1"
          and h: "hex4 h1 h2 h3 h4 = Some u"
          and c: "consume u (parse_chars r1) = Some (str, r)"
          using q b cs "2.prems"
          by (auto simp: parse_chars.simps(2) split: list.splits option.splits)
        then obtain str' where "parse_chars r1 = Some (str', r)" using consume_Some by blast
        then have "length r < length r1"
          using "2.IH"(1) [OF q b cs True r0 refl refl refl h] by blast
        then show ?thesis using cs r0 by simp
      next
        case False
        then obtain u where u: "unescape e = Some u"
          and c: "consume u (parse_chars r0) = Some (str, r)"
          using q b cs "2.prems"
          by (auto simp: parse_chars.simps(2) split: option.splits)
        then obtain str' where "parse_chars r0 = Some (str', r)" using consume_Some by blast
        then have "length r < length r0"
          using "2.IH"(2) [OF q b cs False u] by blast
        then show ?thesis using cs by simp
      qed
    qed
  qed
qed

lemma strip_prefix_shorter: "strip_prefix p s = Some r \<Longrightarrow> p \<noteq> [] \<Longrightarrow> length r < length s"
  by (cases p; cases s) (auto simp: strip_prefix_def split: if_splits)

lemma parse_frac_length: "parse_frac s = Some (x, r) \<Longrightarrow> length r \<le> length s"
  by (auto simp: parse_frac_def length_dropWhile_le le_SucI split: list.splits if_splits)

lemma parse_exp_length: "parse_exp s = Some (x, r) \<Longrightarrow> length r \<le> length s"
  by (auto simp: parse_exp_def Let_def length_dropWhile_le le_SucI
      intro: le_trans [OF length_dropWhile_le]
      split: list.splits if_splits prod.splits)

lemma parse_number_shorter: "parse_number s = Some (x, r) \<Longrightarrow> length r < length s"
proof -
  assume p: "parse_number s = Some (x, r)"
  define s1 where "s1 = (case s of [] \<Rightarrow> s | c # r \<Rightarrow> if c = 0x2D then r else s)"
  have s1: "length s1 \<le> length s" by (auto simp: s1_def split: list.splits)
  obtain d r0 where d: "s1 = d # r0" "is_digit d"
    using p by (cases s1) (auto simp: parse_number_def s1_def split: list.splits if_splits)
  define s2 where "s2 = (if d = 0x30 then r0 else dropWhile is_digit s1)"
  have "dropWhile is_digit s1 = dropWhile is_digit r0" using d by simp
  then have s2: "length s2 \<le> length r0"
    by (simp add: s2_def length_dropWhile_le)
  obtain fp s3 ep where f: "parse_frac s2 = Some (fp, s3)" and e: "parse_exp s3 = Some (ep, r)"
    using p d unfolding parse_number_def s2_def s1_def
    by (auto simp: Let_def split: list.splits if_splits option.splits)
  have "length r \<le> length s3" using e by (rule parse_exp_length)
  also have "\<dots> \<le> length s2" using f by (rule parse_frac_length)
  also have "\<dots> \<le> length r0" by (rule s2)
  also have "\<dots> < length s1" using d by simp
  finally show ?thesis using s1 by simp
qed

lemma parse_atom_shorter: "parse_atom s = Ok (v, r) \<Longrightarrow> length r < length s"
  by (auto simp: parse_atom_def js_def split: option.splits
      dest: strip_prefix_shorter parse_number_shorter)

lemma parse_atom_fuel: "parse_atom s \<noteq> OutOfFuel"
  by (auto simp: parse_atom_def split: option.splits)

lemma parse_shorter:
  "(\<forall>s v r. parse_value n s = Ok (v, r) \<longrightarrow> length r < length s)
   \<and> (\<forall>s acc v r. parse_elements n s acc = Ok (v, r) \<longrightarrow> length r < length s)
   \<and> (\<forall>s acc v r. parse_members n s acc = Ok (v, r) \<longrightarrow> length r < length s)"
proof (induction n)
  case 0
  show ?case by simp
next
  case (Suc n)
  then have IHv: "\<And>s v r. parse_value n s = Ok (v, r) \<Longrightarrow> length r < length s"
    and IHe: "\<And>s acc v r. parse_elements n s acc = Ok (v, r) \<Longrightarrow> length r < length s"
    and IHm: "\<And>s acc v r. parse_members n s acc = Ok (v, r) \<Longrightarrow> length r < length s"
    by blast+
  have V: "length r < length s" if p: "parse_value (Suc n) s = Ok (v, r)" for s v r
  proof (cases s)
    case Nil
    then show ?thesis using p by simp
  next
    case (Cons c cs)
    consider "c = 0x5B" | "c \<noteq> 0x5B" "c = 0x7B" | "c \<noteq> 0x5B" "c \<noteq> 0x7B" "c = 0x22"
      | "c \<noteq> 0x5B" "c \<noteq> 0x7B" "c \<noteq> 0x22" by blast
    then show ?thesis
    proof cases
      case 1
      then obtain d r0 where w: "skip_ws cs = d # r0"
        using p Cons by (cases "skip_ws cs") auto
      have "length r \<le> length r0"
      proof (cases "d = 0x5D")
        case True
        then show ?thesis using p Cons 1 w by simp
      next
        case False
        then have "parse_elements n (d # r0) [] = Ok (v, r)" using p Cons 1 w by simp
        then show ?thesis using IHe by fastforce
      qed
      then show ?thesis using skip_ws_shorter [OF w] Cons by simp
    next
      case 2
      then obtain d r0 where w: "skip_ws cs = d # r0"
        using p Cons by (cases "skip_ws cs") auto
      have "length r \<le> length r0"
      proof (cases "d = 0x7D")
        case True
        then show ?thesis using p Cons 2 w by simp
      next
        case False
        then have "parse_members n (d # r0) [] = Ok (v, r)" using p Cons 2 w by simp
        then show ?thesis using IHm by fastforce
      qed
      then show ?thesis using skip_ws_shorter [OF w] Cons by simp
    next
      case 3
      then obtain str where "parse_chars cs = Some (str, r)"
        using p Cons by (auto split: option.splits)
      then show ?thesis using parse_chars_shorter Cons by fastforce
    next
      case 4
      then have "parse_atom s = Ok (v, r)" using p Cons by simp
      then show ?thesis by (rule parse_atom_shorter)
    qed
  qed
  have E: "length r < length s" if p: "parse_elements (Suc n) s acc = Ok (v, r)" for s acc v r
  proof -
    obtain v1 r1 where v1: "parse_value n s = Ok (v1, r1)"
      using p by (auto split: parse_result.splits)
    obtain d r2 where w: "skip_ws r1 = d # r2"
      using p v1 by (cases "skip_ws r1") auto
    have "length r \<le> length r2"
    proof (cases "d = 0x2C")
      case True
      then have "parse_elements n (skip_ws r2) (acc @ [v1]) = Ok (v, r)" using p v1 w by simp
      then have "length r < length (skip_ws r2)" by (rule IHe)
      then show ?thesis using length_skip_ws [of r2] by simp
    next
      case False
      then show ?thesis using p v1 w by (auto split: if_splits)
    qed
    then show ?thesis using skip_ws_shorter [OF w] IHv [OF v1] by simp
  qed
  have M: "length r < length s" if p: "parse_members (Suc n) s acc = Ok (v, r)" for s acc v r
  proof (cases s)
    case Nil
    then show ?thesis using p by simp
  next
    case (Cons q cs)
    then have q: "q = 0x22" using p by (auto split: if_splits)
    obtain k r0 where k: "parse_chars cs = Some (k, r0)"
      using p Cons q by (auto split: option.splits)
    obtain colon r1 where w1: "skip_ws r0 = colon # r1"
      using p Cons q k by (cases "skip_ws r0") auto
    have colon: "colon = 0x3A" using p Cons q k w1 by (auto split: if_splits)
    obtain v1 r2 where v1: "parse_value n (skip_ws r1) = Ok (v1, r2)"
      using p Cons q k w1 colon by (auto split: parse_result.splits)
    obtain d r3 where w3: "skip_ws r2 = d # r3"
      using p Cons q k w1 colon v1 by (cases "skip_ws r2") auto
    have "length r \<le> length r3"
    proof (cases "d = 0x2C")
      case True
      then have "parse_members n (skip_ws r3) (AList.update k v1 acc) = Ok (v, r)"
        using p Cons q k w1 colon v1 w3 by simp
      then have "length r < length (skip_ws r3)" by (rule IHm)
      then show ?thesis using length_skip_ws [of r3] by simp
    next
      case False
      then show ?thesis using p Cons q k w1 colon v1 w3 by (auto split: if_splits)
    qed
    also have "\<dots> < length r2" using skip_ws_shorter [OF w3] .
    also have "\<dots> < length (skip_ws r1)" using IHv [OF v1] .
    also have "\<dots> \<le> length r1" by (rule length_skip_ws)
    also have "\<dots> < length r0" using skip_ws_shorter [OF w1] .
    also have "\<dots> < length cs" using parse_chars_shorter [OF k] .
    finally show ?thesis using Cons by simp
  qed
  show ?case using V E M by blast
qed

lemmas parse_value_shorter = parse_shorter [THEN conjunct1, rule_format]

lemma parse_fuel:
  "(\<forall>s. 2 * length s < n \<longrightarrow> parse_value n s \<noteq> OutOfFuel)
   \<and> (\<forall>s acc. 2 * length s + 1 < n \<longrightarrow> parse_elements n s acc \<noteq> OutOfFuel)
   \<and> (\<forall>s acc. 2 * length s + 1 < n \<longrightarrow> parse_members n s acc \<noteq> OutOfFuel)"
proof (induction n)
  case 0
  show ?case by simp
next
  case (Suc n)
  then have IHv: "\<And>s. 2 * length s < n \<Longrightarrow> parse_value n s \<noteq> OutOfFuel"
    and IHe: "\<And>s acc. 2 * length s + 1 < n \<Longrightarrow> parse_elements n s acc \<noteq> OutOfFuel"
    and IHm: "\<And>s acc. 2 * length s + 1 < n \<Longrightarrow> parse_members n s acc \<noteq> OutOfFuel"
    by blast+
  have V: "parse_value (Suc n) s \<noteq> OutOfFuel" if f: "2 * length s < Suc n" for s
  proof (cases s)
    case Nil
    then show ?thesis by simp
  next
    case (Cons c cs)
    have sub: "parse_elements n (d # r0) [] \<noteq> OutOfFuel \<and> parse_members n (d # r0) [] \<noteq> OutOfFuel"
      if w: "skip_ws cs = d # r0" for d r0
    proof -
      have "length (d # r0) \<le> length cs" using length_skip_ws [of cs] w by simp
      then have "2 * length (d # r0) + 1 < n" using f Cons by simp
      then show ?thesis using IHe IHm by blast
    qed
    show ?thesis
      using sub by (auto simp: Cons parse_atom_fuel split: list.splits option.splits)
  qed
  have E: "parse_elements (Suc n) s acc \<noteq> OutOfFuel" if f: "2 * length s + 1 < Suc n" for s acc
  proof (cases "parse_value n s")
    case OutOfFuel
    then show ?thesis using IHv [of s] f by simp
  next
    case Bad
    then show ?thesis by simp
  next
    case (Ok x)
    obtain v1 r1 where x: "x = (v1, r1)" by (cases x)
    have r1: "length r1 < length s" using Ok x parse_value_shorter by blast
    have sub: "parse_elements n (skip_ws r2) (acc @ [v1]) \<noteq> OutOfFuel"
      if w: "skip_ws r1 = d # r2" for d r2
    proof -
      have "length (skip_ws r2) < length r1"
        using skip_ws_shorter [OF w] length_skip_ws [of r2] by simp
      then have "2 * length (skip_ws r2) + 1 < n" using f r1 by simp
      then show ?thesis by (rule IHe)
    qed
    show ?thesis using sub by (auto simp: Ok x split: list.splits)
  qed
  have M: "parse_members (Suc n) s acc \<noteq> OutOfFuel" if f: "2 * length s + 1 < Suc n" for s acc
  proof (cases s)
    case Nil
    then show ?thesis by simp
  next
    case (Cons q cs)
    have sub: "(case parse_value n (skip_ws r1) of
                 Ok (v, r2) \<Rightarrow>
                   (case skip_ws r2 of
                      [] \<Rightarrow> Bad
                    | d # r3 \<Rightarrow>
                        if d = 0x2C then parse_members n (skip_ws r3) (AList.update k v acc)
                        else if d = 0x7D then Ok (JObj (AList.update k v acc), r3)
                        else Bad)
               | Bad \<Rightarrow> Bad
               | OutOfFuel \<Rightarrow> OutOfFuel) \<noteq> OutOfFuel"
      if k: "parse_chars cs = Some (k, r0)" and w1: "skip_ws r0 = colon # r1" for k r0 colon r1
    proof -
      have l1: "length (skip_ws r1) < length cs"
        using parse_chars_shorter [OF k] skip_ws_shorter [OF w1] length_skip_ws [of r1] by simp
      then have "2 * length (skip_ws r1) < n" using f Cons by simp
      then have nf: "parse_value n (skip_ws r1) \<noteq> OutOfFuel" by (rule IHv)
      show ?thesis
      proof (cases "parse_value n (skip_ws r1)")
        case OutOfFuel
        then show ?thesis using nf by simp
      next
        case Bad
        then show ?thesis by simp
      next
        case (Ok x)
        obtain v1 r2 where x: "x = (v1, r2)" by (cases x)
        have r2: "length r2 < length (skip_ws r1)" using Ok x parse_value_shorter by blast
        have "parse_members n (skip_ws r3) (AList.update k v1 acc) \<noteq> OutOfFuel"
          if w3: "skip_ws r2 = d # r3" for d r3
        proof -
          have "length (skip_ws r3) < length r2"
            using skip_ws_shorter [OF w3] length_skip_ws [of r3] by simp
          then have "2 * length (skip_ws r3) + 1 < n" using f Cons l1 r2 by simp
          then show ?thesis by (rule IHm)
        qed
        then show ?thesis by (auto simp: Ok x split: list.splits)
      qed
    qed
    show ?thesis
      using sub by (simp add: Cons split: list.splits option.splits prod.splits)
  qed
  show ?case using V E M by blast
qed

lemma JSON_parse_fuel: "parse_value (Suc (2 * length s)) (skip_ws s) \<noteq> OutOfFuel"
proof -
  have "2 * length (skip_ws s) < Suc (2 * length s)" using length_skip_ws [of s] by simp
  then show ?thesis using parse_fuel by blast
qed

section \<open>Reading a value as a task list\<close>

lemma task_of_json_json_of_task: "task_of_json (json_of_task t) = Some t"
  by (simp add: task_of_json_def json_of_task_def json_property_def key_names_distinct
      key_names_distinct [symmetric])

lemma tasks_of_json_json_of_tasks: "tasks_of_json (json_of_tasks ts) = Some ts"
proof -
  have "those (map task_of_json (map json_of_task ts)) = Some ts"
    by (induction ts) (simp_all add: task_of_json_json_of_task)
  then show ?thesis by (simp add: tasks_of_json_def json_of_tasks_def)
qed

section \<open>The string of a timestamp\<close>

lemma unat_digit_char: "d < 10 \<Longrightarrow> unat (digit_char d) = 0x30 + d"
  by (simp add: digit_char_def unat_word_ariths unat_of_nat)

lemma foldl_decimal:
  "foldl (\<lambda>a c. 10 * a + (unat c - 0x30)) 0 (decimal n) = n"
proof (induction n rule: decimal.induct)
  case (1 n)
  show ?case
  proof (cases "n < 10")
    case True
    then show ?thesis by (simp add: decimal.simps [of n] unat_digit_char)
  next
    case False
    then show ?thesis using 1 by (simp add: decimal.simps [of n] unat_digit_char)
  qed
qed

lemma decimal_inj: "decimal m = decimal n \<Longrightarrow> m = n"
  by (metis foldl_decimal)

lemma decimal_not_empty: "decimal n \<noteq> []"
  by (simp add: decimal.simps [of n])

lemma hd_decimal: "\<exists>d < 10. hd (decimal n) = digit_char d"
proof (induction n rule: decimal.induct)
  case (1 n)
  show ?case
  proof (cases "n < 10")
    case True
    then show ?thesis by (auto simp: decimal.simps [of n])
  next
    case False
    then show ?thesis using 1 decimal_not_empty [of "n div 10"]
      by (simp add: decimal.simps [of n])
  qed
qed

lemma hd_decimal_not_minus: "hd (decimal n) \<noteq> 0x2D"
proof -
  obtain d where "d < 10" "hd (decimal n) = digit_char d" using hd_decimal by blast
  then have "unat (hd (decimal n)) = 0x30 + d" by (simp add: unat_digit_char)
  then show ?thesis by auto
qed

lemma Number_toString_inj: "Number_toString a = Number_toString b \<Longrightarrow> a = b"
proof -
  assume e: "Number_toString a = Number_toString b"
  have neg: False if "x < 0" "\<not> y < 0" "Number_toString x = Number_toString y" for x y
  proof -
    have "hd (decimal (nat y)) = 0x2D" using that by (simp add: Number_toString_def) (metis list.sel(1))
    then show False using hd_decimal_not_minus by blast
  qed
  consider "a < 0" "b < 0" | "a < 0" "\<not> b < 0" | "\<not> a < 0" "b < 0" | "\<not> a < 0" "\<not> b < 0" by blast
  then show ?thesis
  proof cases
    case 1
    then have "nat (- a) = nat (- b)" using e by (simp add: Number_toString_def decimal_inj)
    then show ?thesis using 1 by simp
  next
    case 2
    then show ?thesis using neg [of a b] e by simp
  next
    case 3
    then show ?thesis using neg [of b a] e by simp
  next
    case 4
    then have "nat a = nat b" using e by (simp add: Number_toString_def decimal_inj)
    then show ?thesis using 4 by simp
  qed
qed

section \<open>Adding a task\<close>

text \<open>
  C3. When the trimmed input is not empty, \<open>addTask\<close> appends exactly one task at the end
  of the collection and leaves the tasks before it as they were; the new task is not completed,
  its text is the trimmed input, and \<open>totalCount\<close> grows by exactly one. Nothing is alerted.
\<close>

theorem addTask_appends_one:
  "trim (inputText st) \<noteq> [] \<Longrightarrow>
     tasks (fst (addTask now st)) =
       tasks st @ [\<lparr>task_id = Number_toString now, task_text = trim (inputText st),
                     completed = False\<rparr>]
     \<and> take (length (tasks st)) (tasks (fst (addTask now st))) = tasks st
     \<and> completed (last (tasks (fst (addTask now st)))) = False
     \<and> task_text (last (tasks (fst (addTask now st)))) = trim (inputText st)
     \<and> totalCount (fst (addTask now st)) = totalCount st + 1
     \<and> snd (addTask now st) = []"
  by (simp add: addTask_def totalCount_def Let_def)

theorem addTask_appends_one_witness:
  "trim (inputText \<lparr>tasks = [\<lparr>task_id = js ''7'', task_text = js ''Walk dog'', completed = True\<rparr>],
                     inputText = js ''  Buy milk ''\<rparr>) \<noteq> []
   \<and> tasks (fst (addTask 1700000000000
         \<lparr>tasks = [\<lparr>task_id = js ''7'', task_text = js ''Walk dog'', completed = True\<rparr>],
          inputText = js ''  Buy milk ''\<rparr>))
     = [\<lparr>task_id = js ''7'', task_text = js ''Walk dog'', completed = True\<rparr>,
        \<lparr>task_id = js ''1700000000000'', task_text = js ''Buy milk'', completed = False\<rparr>]
   \<and> totalCount (fst (addTask 1700000000000
         \<lparr>tasks = [\<lparr>task_id = js ''7'', task_text = js ''Walk dog'', completed = True\<rparr>],
          inputText = js ''  Buy milk ''\<rparr>)) = 2"
proof -
  let ?st = "\<lparr>tasks = [\<lparr>task_id = js ''7'', task_text = js ''Walk dog'', completed = True\<rparr>],
              inputText = js ''  Buy milk ''\<rparr>"
  have t: "trim (js ''  Buy milk '') = js ''Buy milk''"
    by (simp add: trim_def js_def is_js_whitespace_def)
  have n: "Number_toString 1700000000000 = js ''1700000000000''"
    by (simp add: Number_toString_def decimal.simps digit_char_def js_def)
  have h: "trim (inputText ?st) \<noteq> []" by (simp add: t) (simp add: js_def)
  show ?thesis
    using h addTask_appends_one [OF h, of 1700000000000] by (simp add: t n totalCount_def)
qed

text \<open>
  C5. When the trimmed input is empty, \<open>addTask\<close> shows the alert ``Empty Task'' and
  returns the state it was given: no task is added, none is changed, and the input field keeps
  its content.
\<close>

theorem addTask_empty_input:
  "trim (inputText st) = [] \<Longrightarrow>
     addTask now st = (st, [Alert (js ''Empty Task'') (js ''Please enter a task description'')])"
  by (simp add: addTask_def)

theorem addTask_empty_input_witness:
  "trim (inputText \<lparr>tasks = [\<lparr>task_id = js ''7'', task_text = js ''Walk dog'', completed = True\<rparr>],
                     inputText = js ''   ''\<rparr>) = []
   \<and> addTask 1700000000000
         \<lparr>tasks = [\<lparr>task_id = js ''7'', task_text = js ''Walk dog'', completed = True\<rparr>],
          inputText = js ''   ''\<rparr>
     = (\<lparr>tasks = [\<lparr>task_id = js ''7'', task_text = js ''Walk dog'', completed = True\<rparr>],
         inputText = js ''   ''\<rparr>,
        [Alert (js ''Empty Task'') (js ''Please enter a task description'')])
   \<and> trim (inputText \<lparr>tasks = [], inputText = []\<rparr>) = []
   \<and> addTask 0 \<lparr>tasks = [], inputText = []\<rparr>
     = (\<lparr>tasks = [], inputText = []\<rparr>,
        [Alert (js ''Empty Task'') (js ''Please enter a task description'')])"
proof -
  let ?st = "\<lparr>tasks = [\<lparr>task_id = js ''7'', task_text = js ''Walk dog'', completed = True\<rparr>],
              inputText = js ''   ''\<rparr>"
  have h: "trim (inputText ?st) = []"
    by (simp add: trim_def js_def is_js_whitespace_def)
  have h0: "trim (inputText \<lparr>tasks = [], inputText = []\<rparr>) = []"
    by (simp add: trim_def)
  show ?thesis
    using h h0 addTask_empty_input [OF h, of 1700000000000] addTask_empty_input [OF h0, of 0]
    by simp
qed

section \<open>Toggling and deleting\<close>

lemma toggle_toggle: "toggle i (toggle i t) = t"
  by (simp add: toggle_def)

lemma toggleTask_twice: "toggleTask i (toggleTask i st) = st"
  by (simp add: toggleTask_def toggle_toggle comp_def)

text \<open>
  C6. For the task at any position \<open>k\<close> of the store, \<open>toggleTask\<close> with its id keeps the
  number of tasks, leaves at position \<open>k\<close> the same task with \<open>completed\<close> negated, and a
  second \<open>toggleTask\<close> with the same id gives back the flag and the whole state.
\<close>

theorem toggleTask_flips_in_place:
  "k < length (tasks st) \<Longrightarrow>
     length (tasks (toggleTask (task_id (tasks st ! k)) st)) = length (tasks st)
     \<and> tasks (toggleTask (task_id (tasks st ! k)) st) ! k
         = (tasks st ! k)\<lparr>completed := \<not> completed (tasks st ! k)\<rparr>
     \<and> completed (tasks (toggleTask (task_id (tasks st ! k))
                      (toggleTask (task_id (tasks st ! k)) st)) ! k)
         = completed (tasks st ! k)
     \<and> toggleTask (task_id (tasks st ! k)) (toggleTask (task_id (tasks st ! k)) st) = st"
  by (simp add: toggleTask_twice) (simp add: toggleTask_def toggle_def)

theorem toggleTask_flips_in_place_witness:
  "(1::nat) < length (tasks \<lparr>tasks = [\<lparr>task_id = js ''1'', task_text = js ''a'', completed = False\<rparr>,
                                       \<lparr>task_id = js ''2'', task_text = js ''b'', completed = False\<rparr>],
                              inputText = []\<rparr>)
   \<and> tasks (toggleTask (js ''2'')
        \<lparr>tasks = [\<lparr>task_id = js ''1'', task_text = js ''a'', completed = False\<rparr>,
                  \<lparr>task_id = js ''2'', task_text = js ''b'', completed = False\<rparr>],
         inputText = []\<rparr>) ! 1
     = \<lparr>task_id = js ''2'', task_text = js ''b'', completed = True\<rparr>
   \<and> toggleTask (js ''2'') (toggleTask (js ''2'')
        \<lparr>tasks = [\<lparr>task_id = js ''1'', task_text = js ''a'', completed = False\<rparr>,
                  \<lparr>task_id = js ''2'', task_text = js ''b'', completed = False\<rparr>],
         inputText = []\<rparr>)
     = \<lparr>tasks = [\<lparr>task_id = js ''1'', task_text = js ''a'', completed = False\<rparr>,
                 \<lparr>task_id = js ''2'', task_text = js ''b'', completed = False\<rparr>],
        inputText = []\<rparr>"
proof -
  let ?st = "\<lparr>tasks = [\<lparr>task_id = js ''1'', task_text = js ''a'', completed = False\<rparr>,
                       \<lparr>task_id = js ''2'', task_text = js ''b'', completed = False\<rparr>],
              inputText = []\<rparr>"
  have h: "1 < length (tasks ?st)" by simp
  show ?thesis using h toggleTask_flips_in_place [OF h] by simp
qed

lemma map_toggle_absent: "i \<notin> task_id ` set ts \<Longrightarrow> map (toggle i) ts = ts"
  by (induction ts) (auto simp: toggle_def)

lemma filter_absent: "i \<notin> task_id ` set ts \<Longrightarrow> filter (\<lambda>t. task_id t \<noteq> i) ts = ts"
  by (induction ts) auto

lemma absent_after_delete: "i \<notin> task_id ` set (tasks (deleteTask i st))"
  by (auto simp: deleteTask_def)

text \<open>
  C7. With an id that no task of the store has, \<open>toggleTask\<close> and \<open>deleteTask\<close> return
  the state unchanged (they are total functions and have no error to raise); so after
  \<open>deleteTask i\<close>, a \<open>toggleTask i\<close> or a second \<open>deleteTask i\<close> changes nothing.
\<close>

theorem absent_id_is_noop:
  "(i \<notin> task_id ` set (tasks st) \<longrightarrow> toggleTask i st = st \<and> deleteTask i st = st)
   \<and> toggleTask i (deleteTask i st) = deleteTask i st
   \<and> deleteTask i (deleteTask i st) = deleteTask i st"
proof -
  have a: "toggleTask i s = s \<and> deleteTask i s = s" if "i \<notin> task_id ` set (tasks s)" for s
    using that by (simp add: toggleTask_def deleteTask_def map_toggle_absent filter_absent)
  show ?thesis using a [of st] a [OF absent_after_delete [of i st]] by simp
qed

theorem absent_id_is_noop_witness:
  "js ''3'' \<notin> task_id ` set (tasks \<lparr>tasks = [\<lparr>task_id = js ''1'', task_text = js ''a'', completed = False\<rparr>,
                                               \<lparr>task_id = js ''2'', task_text = js ''b'', completed = True\<rparr>],
                                      inputText = js ''c''\<rparr>)
   \<and> toggleTask (js ''3'')
        \<lparr>tasks = [\<lparr>task_id = js ''1'', task_text = js ''a'', completed = False\<rparr>,
                  \<lparr>task_id = js ''2'', task_text = js ''b'', completed = True\<rparr>],
         inputText = js ''c''\<rparr>
     = \<lparr>tasks = [\<lparr>task_id = js ''1'', task_text = js ''a'', completed = False\<rparr>,
                 \<lparr>task_id = js ''2'', task_text = js ''b'', completed = True\<rparr>],
        inputText = js ''c''\<rparr>
   \<and> deleteTask (js ''3'')
        \<lparr>tasks = [\<lparr>task_id = js ''1'', task_text = js ''a'', completed = False\<rparr>,
                  \<lparr>task_id = js ''2'', task_text = js ''b'', completed = True\<rparr>],
         inputText = js ''c''\<rparr>
     = \<lparr>tasks = [\<lparr>task_id = js ''1'', task_text = js ''a'', completed = False\<rparr>,
                 \<lparr>task_id = js ''2'', task_text = js ''b'', completed = True\<rparr>],
        inputText = js ''c''\<rparr>"
proof -
  let ?st = "\<lparr>tasks = [\<lparr>task_id = js ''1'', task_text = js ''a'', completed = False\<rparr>,
                       \<lparr>task_id = js ''2'', task_text = js ''b'', completed = True\<rparr>],
              inputText = js ''c''\<rparr>"
  have h: "js ''3'' \<notin> task_id ` set (tasks ?st)" by (simp add: js_def)
  show ?thesis using h absent_id_is_noop [of "js ''3''" ?st] by simp
qed

text \<open>
  C10. \<open>toggleTask i\<close> changes nothing but the \<open>completed\<close> field of the tasks whose id is
  \<open>i\<close>: the number of tasks, their order, their ids and their texts stay, a task with another
  id stays as it is in every field, and so does the input field.
\<close>

theorem toggleTask_frame:
  "length (tasks (toggleTask i st)) = length (tasks st)
   \<and> map task_id (tasks (toggleTask i st)) = map task_id (tasks st)
   \<and> map task_text (tasks (toggleTask i st)) = map task_text (tasks st)
   \<and> inputText (toggleTask i st) = inputText st
   \<and> (\<forall>k < length (tasks st).
         task_id (tasks st ! k) \<noteq> i \<longrightarrow> tasks (toggleTask i st) ! k = tasks st ! k)
   \<and> (\<forall>k < length (tasks st).
         task_id (tasks st ! k) = i \<longrightarrow>
           tasks (toggleTask i st) ! k = (tasks st ! k)\<lparr>completed := \<not> completed (tasks st ! k)\<rparr>)"
  by (simp add: toggleTask_def toggle_def)

theorem toggleTask_frame_witness:
  "map task_id (tasks (toggleTask (js ''2'')
        \<lparr>tasks = [\<lparr>task_id = js ''1'', task_text = js ''a'', completed = False\<rparr>,
                  \<lparr>task_id = js ''2'', task_text = js ''b'', completed = False\<rparr>],
         inputText = []\<rparr>)) = [js ''1'', js ''2'']
   \<and> (0::nat) < length (tasks \<lparr>tasks = [\<lparr>task_id = js ''1'', task_text = js ''a'', completed = False\<rparr>,
                  \<lparr>task_id = js ''2'', task_text = js ''b'', completed = False\<rparr>], inputText = []\<rparr>)
   \<and> task_id (tasks \<lparr>tasks = [\<lparr>task_id = js ''1'', task_text = js ''a'', completed = False\<rparr>,
                  \<lparr>task_id = js ''2'', task_text = js ''b'', completed = False\<rparr>], inputText = []\<rparr> ! 0)
       \<noteq> js ''2''
   \<and> tasks (toggleTask (js ''2'')
        \<lparr>tasks = [\<lparr>task_id = js ''1'', task_text = js ''a'', completed = False\<rparr>,
                  \<lparr>task_id = js ''2'', task_text = js ''b'', completed = False\<rparr>],
         inputText = []\<rparr>) ! 0
     = \<lparr>task_id = js ''1'', task_text = js ''a'', completed = False\<rparr>
   \<and> (1::nat) < length (tasks \<lparr>tasks = [\<lparr>task_id = js ''1'', task_text = js ''a'', completed = False\<rparr>,
                  \<lparr>task_id = js ''2'', task_text = js ''b'', completed = False\<rparr>], inputText = []\<rparr>)
   \<and> task_id (tasks \<lparr>tasks = [\<lparr>task_id = js ''1'', task_text = js ''a'', completed = False\<rparr>,
                  \<lparr>task_id = js ''2'', task_text = js ''b'', completed = False\<rparr>], inputText = []\<rparr> ! 1)
       = js ''2''
   \<and> tasks (toggleTask (js ''2'')
        \<lparr>tasks = [\<lparr>task_id = js ''1'', task_text = js ''a'', completed = False\<rparr>,
                  \<lparr>task_id = js ''2'', task_text = js ''b'', completed = False\<rparr>],
         inputText = []\<rparr>) ! 1
     = \<lparr>task_id = js ''2'', task_text = js ''b'', completed = True\<rparr>"
proof -
  let ?st = "\<lparr>tasks = [\<lparr>task_id = js ''1'', task_text = js ''a'', completed = False\<rparr>,
                       \<lparr>task_id = js ''2'', task_text = js ''b'', completed = False\<rparr>],
              inputText = []\<rparr>"
  have h: "task_id (tasks ?st ! 0) \<noteq> js ''2''" by (simp add: js_def)
  have "tasks (toggleTask (js ''2'') ?st) ! 0 = tasks ?st ! 0"
    using h toggleTask_frame [of "js ''2''" ?st] by simp
  moreover have "tasks (toggleTask (js ''2'') ?st) ! 1
      = (tasks ?st ! 1)\<lparr>completed := \<not> completed (tasks ?st ! 1)\<rparr>"
    using toggleTask_frame [of "js ''2''" ?st] by simp
  moreover have "map task_id (tasks (toggleTask (js ''2'') ?st)) = map task_id (tasks ?st)"
    using toggleTask_frame [of "js ''2''" ?st] by blast
  ultimately show ?thesis using h by simp
qed

section \<open>Saving and loading\<close>

lemma loadTasks_parsed:
  "JSON_parse s = Inr v \<Longrightarrow> loadTasks (Resolved (Some s)) cur = (v, [])"
  by (simp add: loadTasks_def)

lemma loadTasks_stringify:
  "loadTasks (Resolved (Some (JSON_stringify ts))) cur = (json_of_tasks ts, [])"
  by (simp add: loadTasks_parsed JSON_parse_stringify)

text \<open>What \<open>JSON.stringify\<close> writes for two tasks, the second with a quote, a backslash, a
  line feed and a lone surrogate in its text.\<close>

lemma JSON_stringify_example:
  "JSON_stringify [\<lparr>task_id = js ''1'', task_text = js ''a'', completed = True\<rparr>,
                   \<lparr>task_id = js ''2'', task_text = [0x22, 0x5C, 0x0A, 0xD800], completed = False\<rparr>]
   = js ''[{\"id\":\"1\",\"text\":\"a\",\"completed\":true},{\"id\":\"2\",\"text\":\"''
     @ [0x5C, 0x22, 0x5C, 0x5C, 0x5C, 0x6E] @ 0x5C # js ''ud800''
     @ js ''\",\"completed\":false}]''"
  by (simp add: JSON_stringify_def stringify_task_def QuoteJSONString_def quote_unit_def js_def
      unicode_escape_def hex_digit_def is_lead_def is_trail_def)

text \<open>
  C2. Saving a task list and loading what was saved gives the same list back. After a
  \<open>saveTasks\<close> whose write succeeds, \<open>loadTasks\<close> on the stored string sets \<open>tasks\<close> to
  the value of the list that was saved, with the same ids, texts and \<open>completed\<close> flags in
  the same order, and logs nothing. This holds for every task list, whatever code units its
  strings hold.
\<close>

theorem save_then_load:
  "loadTasks (Resolved (fst (saveTasks Stored st storage))) cur = (json_of_tasks (tasks st), [])
   \<and> tasks_of_json (fst (loadTasks (Resolved (fst (saveTasks Stored st storage))) cur))
       = Some (tasks st)
   \<and> step (LoadTasks (Resolved (fst (saveTasks Stored st storage)))) st'
       = Some (st'\<lparr>tasks := tasks st\<rparr>)"
  by (simp add: saveTasks_def loadTasks_stringify tasks_of_json_json_of_tasks)

theorem save_then_load_witness:
  "tasks_of_json (fst (loadTasks (Resolved (fst (saveTasks Stored
       \<lparr>tasks = [\<lparr>task_id = js ''1'', task_text = js ''a'', completed = True\<rparr>,
                 \<lparr>task_id = js ''2'', task_text = [0x22, 0x5C, 0x0A, 0xD800], completed = False\<rparr>],
        inputText = []\<rparr> None))) (JArr [])))
   = Some [\<lparr>task_id = js ''1'', task_text = js ''a'', completed = True\<rparr>,
           \<lparr>task_id = js ''2'', task_text = [0x22, 0x5C, 0x0A, 0xD800], completed = False\<rparr>]"
proof -
  let ?st = "\<lparr>tasks = [\<lparr>task_id = js ''1'', task_text = js ''a'', completed = True\<rparr>,
                       \<lparr>task_id = js ''2'', task_text = [0x22, 0x5C, 0x0A, 0xD800],
                          completed = False\<rparr>],
              inputText = []\<rparr>"
  have "tasks_of_json (fst (loadTasks (Resolved (fst (saveTasks Stored ?st None))) (JArr [])))
      = Some (tasks ?st)"
    by (rule save_then_load [THEN conjunct2, THEN conjunct1])
  then show ?thesis by simp
qed

text \<open>What \<open>loadTasks\<close> does when there is nothing to load: the value of \<open>tasks\<close> stays,
  and the error that was thrown is logged.\<close>

lemma loadTasks_nothing_stored: "loadTasks (Resolved None) cur = (cur, [])"
  by (simp add: loadTasks_def)

lemma loadTasks_read_rejected:
  "loadTasks (Rejected e) cur = (cur, [ConsoleError (js ''Error loading tasks:'') e])"
  by (simp add: loadTasks_def)

lemma loadTasks_not_JSON:
  "JSON_parse s = Inl e \<Longrightarrow>
     loadTasks (Resolved (Some s)) cur = (cur, [ConsoleError (js ''Error loading tasks:'') e])"
  by (simp add: loadTasks_def)


lemma loadTasks_not_JSON_example:
  "loadTasks (Resolved (Some (js ''[{id:1''))) (json_of_tasks [])
     = (json_of_tasks [], [ConsoleError (js ''Error loading tasks:'') SyntaxError])"
proof -
  have "JSON_parse (js ''[{id:1'') = Inl SyntaxError" by code_simp
  then show ?thesis by (rule loadTasks_not_JSON)
qed

text \<open>
  C9. The stored string \<open>null\<close> is not a task sequence, yet it is a JSON text:
  \<open>JSON.parse\<close> returns \<open>null\<close> and \<open>loadTasks\<close> passes it to \<open>setTasks\<close>. The store is
  then \<open>null\<close> and not the empty list, and the next render throws a \<open>TypeError\<close> at
  \<open>tasks.filter\<close>.
\<close>

theorem load_null_installs_null:
  "JSON_parse (js ''null'') = Inr JNull
   \<and> tasks_of_json JNull = None
   \<and> fst (loadTasks (Resolved (Some (js ''null''))) (json_of_tasks [])) = JNull
   \<and> JNull \<noteq> json_of_tasks []
   \<and> filter_receiver (fst (loadTasks (Resolved (Some (js ''null''))) (json_of_tasks [])))
       = Inl TypeError
   \<and> step (LoadTasks (Resolved (Some (js ''null'')))) initial_home = None"
proof -
  have p: "JSON_parse (js ''null'') = Inr JNull" by code_simp
  have t: "tasks_of_json JNull = None" by (simp add: tasks_of_json_def)
  show ?thesis by (simp add: p t loadTasks_parsed json_of_tasks_def filter_receiver_def)
qed

section \<open>Texts are not blank\<close>








lemma reads_saved_snapshot:
  "reads_texts_not_blank (LoadTasks (Resolved (fst (saveTasks Stored st storage))))
     = texts_not_blank (tasks st)"
  by (simp add: reads_texts_not_blank_def saveTasks_def JSON_parse_stringify
      tasks_of_json_json_of_tasks)




section \<open>Ids\<close>

text \<open>\<open>toggleTask\<close> and \<open>deleteTask\<close> keep the ids of the store distinct, and so does
  \<open>addTask\<close> when the string of the timestamp is the id of no task in the store.\<close>

lemma unique_ids_toggleTask: "unique_ids (toggleTask i st) = unique_ids st"
proof -
  have "task_id \<circ> toggle i = task_id"
    by (simp add: fun_eq_iff toggle_def)
  then show ?thesis by (simp add: unique_ids_def toggleTask_def)
qed

lemma unique_ids_deleteTask: "unique_ids st \<Longrightarrow> unique_ids (deleteTask i st)"
  by (simp add: unique_ids_def deleteTask_def distinct_map_filter)

lemma unique_ids_addTask:
  "unique_ids st \<Longrightarrow> Number_toString now \<notin> task_id ` set (tasks st) \<Longrightarrow>
     unique_ids (fst (addTask now st))"
  by (simp add: unique_ids_def addTask_def Let_def)

text \<open>
  C1. The id of a new task is the string of \<open>Date.now()\<close>. Two tasks added while the clock
  reads the same millisecond get the same id: the store then holds two distinct tasks with equal
  ids.
\<close>

theorem same_millisecond_ids_collide:
  "run [SetInputText (js ''Buy milk''), AddTask 1700000000000,
        SetInputText (js ''Walk dog''), AddTask 1700000000000] initial_home
     = Some \<lparr>tasks = [\<lparr>task_id = js ''1700000000000'', task_text = js ''Buy milk'',
                          completed = False\<rparr>,
                       \<lparr>task_id = js ''1700000000000'', task_text = js ''Walk dog'',
                          completed = False\<rparr>],
              inputText = []\<rparr>
   \<and> \<not> unique_ids \<lparr>tasks = [\<lparr>task_id = js ''1700000000000'', task_text = js ''Buy milk'',
                                completed = False\<rparr>,
                             \<lparr>task_id = js ''1700000000000'', task_text = js ''Walk dog'',
                                completed = False\<rparr>],
                    inputText = []\<rparr>"
proof -
  have t: "trim (js ''Buy milk'') = js ''Buy milk''" "trim (js ''Walk dog'') = js ''Walk dog''"
    by (simp_all add: trim_def js_def is_js_whitespace_def)
  have ne: "js ''Buy milk'' \<noteq> []" "js ''Walk dog'' \<noteq> []" by (simp_all add: js_def)
  have n: "Number_toString 1700000000000 = js ''1700000000000''"
    by (simp add: Number_toString_def decimal.simps digit_char_def js_def)
  show ?thesis
    by (simp add: initial_home_def addTask_def t ne n Let_def unique_ids_def)
qed

section \<open>The summary\<close>

text \<open>\<open>completedCount\<close> is the number of positions that hold a completed task and
  \<open>totalCount\<close> the number of tasks; the scenario of two additions and a toggle of the first
  gives \<open>(1, 2)\<close> whenever the two timestamps differ.\<close>

lemma summary_counts:
  "summary st = (card {k. k < length (tasks st) \<and> completed (tasks st ! k)}, length (tasks st))"
  by (simp add: summary_def completedCount_def totalCount_def length_filter_conv_card)

lemma summary_scenario_distinct_ids:
  assumes "t1 \<noteq> t2"
  shows "map_option summary
     (run [SetInputText (js ''Buy milk''), AddTask t1, SetInputText (js ''Walk dog''), AddTask t2,
           ToggleTask (Number_toString t1)] initial_home) = Some (1, 2)"
proof -
  have t: "trim (js ''Buy milk'') = js ''Buy milk''" "trim (js ''Walk dog'') = js ''Walk dog''"
    by (simp_all add: trim_def js_def is_js_whitespace_def)
  have ne: "js ''Buy milk'' \<noteq> []" "js ''Walk dog'' \<noteq> []" by (simp_all add: js_def)
  have d: "Number_toString t2 \<noteq> Number_toString t1" using assms Number_toString_inj by blast
  show ?thesis
    by (simp add: initial_home_def addTask_def t ne d Let_def toggleTask_def toggle_def
        summary_def completedCount_def totalCount_def)
qed

text \<open>
  C8. From the empty store, adding ``Buy milk'' and ``Walk dog'' while the clock reads the same
  millisecond and toggling the id of ``Buy milk'' completes both tasks: the summary is
  \<open>(2, 2)\<close>, not \<open>(1, 2)\<close>.
\<close>

theorem summary_scenario_same_millisecond:
  "map_option summary
     (run [SetInputText (js ''Buy milk''), AddTask 1700000000000,
           SetInputText (js ''Walk dog''), AddTask 1700000000000,
           ToggleTask (js ''1700000000000'')] initial_home) = Some (2, 2)"
proof -
  have n: "Number_toString 1700000000000 = js ''1700000000000''"
    by (simp add: Number_toString_def decimal.simps digit_char_def js_def)
  have t: "trim (js ''Buy milk'') = js ''Buy milk''" "trim (js ''Walk dog'') = js ''Walk dog''"
    by (simp_all add: trim_def js_def is_js_whitespace_def)
  have ne: "js ''Buy milk'' \<noteq> []" "js ''Walk dog'' \<noteq> []" by (simp_all add: js_def)
  show ?thesis
    by (simp add: initial_home_def addTask_def t ne n Let_def toggleTask_def toggle_def
        summary_def completedCount_def totalCount_def)
qed

end
